theory Spec2Isabelle
  imports Main "HOL-Library.Sublist"
begin

section \<open>Permission check engine (internal/services/permissionService.go)\<close>

text \<open>
  The engine answers "can subject s perform action a on object o" by compiling the
  action's rule tree into check functions and folding their decisions with the
  \<open>union\<close> and \<open>intersection\<close> combiners. The leaf resolver \<open>check\<close> reads the
  tuple store and follows userset edges under a depth counter.
\<close>

subsection \<open>Errors and decisions\<close>

text \<open>
  The five error values declared in the file, and \<open>ExternalError\<close> for every error that
  comes from a collaborator (the tuple store, the object parser). A Go \<open>error\<close> that may
  be nil is an \<open>error option\<close>.
\<close>

datatype error =
    DepthError
  | CanceledError
  | ActionCannotFoundError
  | UndefinedChildTypeError
  | UndefinedChildKindError
  | ExternalError string

record Decision =
  Can :: bool
  Err :: "error option"

definition sendDecision :: "bool \<Rightarrow> error option \<Rightarrow> Decision" where
  "sendDecision can err = \<lparr>Can = can, Err = err\<rparr>"

subsection \<open>Data of the collaborating packages\<close>

text \<open>
  The structs of \<open>pkg/tuple\<close>, \<open>internal/entities\<close> and \<open>pkg/dsl/schema\<close> with the fields
  this file reads or writes. The field \<open>ID\<close> of \<open>tuple.User\<close> is named \<open>UserID\<close> here and
  the field \<open>Object\<close> of \<open>Request\<close> is named \<open>ReqObject\<close>, since \<open>tuple.Object\<close> and
  \<open>tuple.UserSet\<close> have fields of the same names.
\<close>

record Object =
  Namespace :: string
  ID :: string

type_synonym Relation = string

record UserSet =
  Object :: Object
  Relation :: Relation

record User =
  UserID :: string
  UserSet :: UserSet

record RelationTuple =
  UsersetEntity :: string
  UsersetObjectID :: string
  UsersetRelation :: string

text \<open>
  The functions and the constant of \<open>pkg/tuple\<close> that the file calls are not part of it.
  They are parameters of the model: every theorem below holds for any choice of them.
  \<open>Split\<close> gives the two components \<open>r[0]\<close> and \<open>r[1]\<close> that \<open>getUsers\<close> reads.
\<close>

record Tuple =
  ConvertObject :: "string \<Rightarrow> error + Object"
  ConvertUser :: "string \<Rightarrow> User"
  Split :: "Relation \<Rightarrow> Relation \<times> Relation"
  Equals :: "User \<Rightarrow> User \<Rightarrow> bool"
  IsUser :: "User \<Rightarrow> bool"
  ELLIPSIS :: string

text \<open>
  A rule node. \<open>GetKind\<close> is the constructor; \<open>GetType\<close> is compared with the string forms
  of \<open>schema.Union\<close>, \<open>schema.Intersection\<close>, \<open>schema.TupleToUserSetType\<close> and
  \<open>schema.ComputedUserSetType\<close> only, so a type is one of those or anything else.
  \<open>OtherKind\<close> is a child whose kind is neither rewrite nor leaf.
\<close>

datatype RewriteType = UnionType | IntersectionType | OtherRewriteType

datatype LeafType = TupleToUserSetType | ComputedUserSetType | OtherLeafType

datatype Child =
    Rewrite RewriteType "Child list"
  | Leaf LeafType string
  | OtherKind

record Action =
  Name :: string
  Child :: Child

record Entity =
  Actions :: "Action list"

text \<open>
  The service holds the repository, of which the file calls \<open>QueryTuples\<close> only, and the
  schema, a Go map from namespace to entity.
\<close>

record PermissionService =
  repository :: "string \<Rightarrow> string \<Rightarrow> string \<Rightarrow> error + RelationTuple list"
  schema :: "string \<rightharpoonup> Entity"

subsection \<open>Request, depth counter and state\<close>

text \<open>
  \<open>Request.depth\<close> is a pointer to an int and every check function of one call holds the
  same \<open>*Request\<close>. The cell it points to is the component \<open>depth\<close> of the state that
  the check functions pass along; \<open>queries\<close> records each \<open>QueryTuples\<close> call made, in
  order, as (namespace, object id, relation).
\<close>

record Request =
  ReqObject :: Object
  Subject :: User

record State =
  depth :: int
  queries :: "(string \<times> string \<times> string) list"

definition SetDepth :: "int \<Rightarrow> State" where
  "SetDepth i = \<lparr>depth = i, queries = []\<rparr>"

text \<open>\<open>*r.depth--\<close> on a 64-bit int: the least value wraps to the greatest.\<close>

definition decrease :: "State \<Rightarrow> State" where
  "decrease st = st\<lparr>depth :=
     (if depth st = - 9223372036854775808 then 9223372036854775807 else depth st - 1)\<rparr>"

definition isFinish :: "State \<Rightarrow> bool" where
  "isFinish st = (depth st \<le> 0)"

subsection \<open>Combiners\<close>

text \<open>
  Each iteration of a combiner's loop is one \<open>select\<close>: it takes either a decision from
  \<open>decisionChan\<close> or the closing of \<open>ctx.Done()\<close>. The loops below run over the sequence
  of what the successive selects take. A loop that still has iterations left when the
  sequence ends waits for ever: the result is \<open>None\<close>.
\<close>

datatype event = Recv Decision | Done

fun union_loop :: "nat \<Rightarrow> event list \<Rightarrow> Decision option" where
  "union_loop 0 evs = Some (sendDecision False None)"
| "union_loop (Suc n) [] = None"
| "union_loop (Suc n) (Done # evs) = Some (sendDecision False (Some CanceledError))"
| "union_loop (Suc n) (Recv result # evs) =
     (if Err result = None \<and> Can result then Some (sendDecision True None)
      else if Err result \<noteq> None then Some (sendDecision False (Err result))
      else union_loop n evs)"

fun intersection_loop :: "nat \<Rightarrow> event list \<Rightarrow> Decision option" where
  "intersection_loop 0 evs = Some (sendDecision True None)"
| "intersection_loop (Suc n) [] = None"
| "intersection_loop (Suc n) (Done # evs) = Some (sendDecision False (Some CanceledError))"
| "intersection_loop (Suc n) (Recv result # evs) =
     (if Err result = None \<and> \<not> Can result then Some (sendDecision False None)
      else if Err result \<noteq> None then Some (sendDecision False (Err result))
      else intersection_loop n evs)"

text \<open>
  The combiner called with \<open>n\<close> functions, as a function of what its selects take:
  the test on \<open>len(functions)\<close>, then the loop.
\<close>

definition union_select :: "nat \<Rightarrow> event list \<Rightarrow> Decision option" where
  "union_select n evs =
     (if n = 0 then Some (sendDecision False None) else union_loop n evs)"

definition intersection_select :: "nat \<Rightarrow> event list \<Rightarrow> Decision option" where
  "intersection_select n evs =
     (if n = 0 then Some (sendDecision False None) else intersection_loop n evs)"

text \<open>
  A check function is followed from its start to its first send on \<open>decisionChan\<close>: the
  decision sent, or \<open>None\<close> when it ends or waits for ever without sending, and the
  state at that point, which is not the state when the goroutine ends: what a goroutine
  does after its first send is not followed. The scope is either never canceled or
  already canceled.

  The goroutines of a combiner are run in the order of \<open>functions\<close>, one after the other,
  each on the state the one before left (\<open>launch\<close>); their decisions arrive in that
  order. This is one schedule among those the goroutines can follow.
  On a canceled scope the first select takes \<open>ctx.Done()\<close>. What any other
  schedule makes the selects take is covered by \<open>union_select\<close> and
  \<open>intersection_select\<close>, which are defined for every sequence.
\<close>

datatype Context = Background | Canceled

type_synonym CheckFunction = "Context \<Rightarrow> State \<Rightarrow> Decision option \<times> State"

type_synonym Combiner = "Context \<Rightarrow> CheckFunction list \<Rightarrow> State \<Rightarrow> Decision option \<times> State"

fun launch :: "Context \<Rightarrow> CheckFunction list \<Rightarrow> State \<Rightarrow> Decision option list \<times> State" where
  "launch ctx [] st = ([], st)"
| "launch ctx (fn # fns) st =
     (let (r, st1) = fn ctx st; (rs, st2) = launch ctx fns st1 in (r # rs, st2))"

definition arrivals :: "Context \<Rightarrow> Decision option list \<Rightarrow> event list" where
  "arrivals ctx rs =
     (case ctx of Canceled \<Rightarrow> [Done] | Background \<Rightarrow> map Recv (List.map_filter id rs))"

definition union_comb :: Combiner where
  "union_comb ctx functions st =
     (if length functions = 0 then (Some (sendDecision False None), st)
      else (let (rs, st') = launch ctx functions st
            in (union_loop (length functions) (arrivals ctx rs), st')))"

definition intersection :: Combiner where
  "intersection ctx functions st =
     (if length functions = 0 then (Some (sendDecision False None), st)
      else (let (rs, st') = launch ctx functions st
            in (intersection_loop (length functions) (arrivals ctx rs), st')))"

lemma union_comb_single_cong [fundef_cong]:
  "ctx = ctx' \<Longrightarrow> st = st' \<Longrightarrow> fn ctx' st' = fn' ctx' st'
   \<Longrightarrow> union_comb ctx [fn] st = union_comb ctx' [fn'] st'"
  by (simp add: union_comb_def)

subsection \<open>Leaf resolver\<close>

definition fail :: "error \<Rightarrow> CheckFunction" where
  "fail err = (\<lambda>ctx st. (Some (sendDecision False (Some err)), st))"

definition getUsers :: "Tuple \<Rightarrow> PermissionService \<Rightarrow> Object \<Rightarrow> Relation \<Rightarrow> State
    \<Rightarrow> (error + User list) \<times> State" where
  "getUsers tp service object relation st =
     (let r = Split tp relation;
          st1 = st\<lparr>queries := queries st @ [(Namespace object, ID object, fst r)]\<rparr>
      in case repository service (Namespace object) (ID object) (fst r) of
           Inl err \<Rightarrow> (Inl err, st1)
         | Inr en \<Rightarrow> (Inr (map (\<lambda>entity.
             if UsersetEntity entity \<noteq> []
             then \<lparr>UserID = [],
                   UserSet = \<lparr>Object = \<lparr>Namespace = UsersetEntity entity,
                                         ID = UsersetObjectID entity\<rparr>,
                              Relation = (if UsersetRelation entity = ELLIPSIS tp then snd r
                                          else UsersetRelation entity)\<rparr>\<rparr>
             else \<lparr>UserID = UsersetObjectID entity,
                   UserSet = \<lparr>Object = \<lparr>Namespace = [], ID = []\<rparr>, Relation = []\<rparr>\<rparr>) en),
           st1))"

lemma getUsers_depth:
  "(r, st1) = getUsers tp service object relation st \<Longrightarrow> depth st1 = depth st"
  by (auto simp: getUsers_def Let_def split: sum.splits)

text \<open>
  The closure that \<open>check\<close> returns, in three parts: \<open>check\<close> is the closure up to its
  first send, \<open>check_resolve\<close> is its body from the call of \<open>getUsers\<close> on, and
  \<open>check_scan\<close> is the loop over \<open>users\<close>. In \<open>check_resolve\<close> the statement
  \<open>fail(err)\<close> builds a check function and drops it, so nothing is sent before the
  \<open>return\<close>. \<open>err\<close> is nil wherever the loop and the last line send it.
\<close>

function check :: "Tuple \<Rightarrow> PermissionService \<Rightarrow> Object \<Rightarrow> Relation \<Rightarrow> Request \<Rightarrow> CheckFunction"
  and check_resolve :: "Tuple \<Rightarrow> PermissionService \<Rightarrow> Object \<Rightarrow> Relation \<Rightarrow> Request \<Rightarrow> CheckFunction"
  and check_scan :: "Tuple \<Rightarrow> PermissionService \<Rightarrow> Request \<Rightarrow> User list \<Rightarrow> CheckFunction"
where
  "check tp service object relation re ctx st =
     (if isFinish st then (Some (sendDecision False (Some DepthError)), st)
      else check_resolve tp service object relation re ctx st)"
| "check_resolve tp service object relation re ctx st =
     (case getUsers tp service object relation st of
        (Inl err, st1) \<Rightarrow> (None, st1)
      | (Inr users, st1) \<Rightarrow> check_scan tp service re users ctx st1)"
| "check_scan tp service re [] ctx st = (Some (sendDecision False None), st)"
| "check_scan tp service re (t # users) ctx st =
     (if Equals tp t (Subject re) then (Some (sendDecision True None), st)
      else if \<not> IsUser tp t
        then union_comb ctx
               [check tp service (Object (UserSet t)) (Relation (UserSet t)) re] (decrease st)
      else check_scan tp service re users ctx st)"
  by pat_completeness auto
termination
  apply (relation "measures [
     (\<lambda>x. case x of
        Inl (tp, service, object, relation, re, ctx, st) \<Rightarrow>
          (if depth st \<le> 0 then 0 else 2 * nat (depth st))
      | Inr (Inl (tp, service, object, relation, re, ctx, st)) \<Rightarrow>
          (if depth st \<le> 0 then 2 ^ 64 else 2 * nat (depth st))
      | Inr (Inr (tp, service, re, users, ctx, st)) \<Rightarrow>
          (if depth st \<le> 0 then 2 ^ 64 else 2 * nat (depth st))),
     (\<lambda>x. case x of Inl _ \<Rightarrow> 2 | Inr (Inl _) \<Rightarrow> 1 | Inr (Inr _) \<Rightarrow> 0),
     (\<lambda>x. case x of Inl _ \<Rightarrow> 0 | Inr (Inl _) \<Rightarrow> 0
        | Inr (Inr (tp, service, re, users, ctx, st)) \<Rightarrow> length users)]")
   apply simp
  apply (auto simp: isFinish_def decrease_def dest: getUsers_depth)
  done

declare check.simps [simp del] check_resolve.simps [simp del]

text \<open>
  The whole closure: every decision it sends on \<open>decisionChan\<close>, in order, and the state
  when it returns. After the send of \<open>DepthError\<close> there is no \<open>return\<close>, so the closure
  goes on with \<open>getUsers\<close>.
\<close>

definition check_sends :: "Tuple \<Rightarrow> PermissionService \<Rightarrow> Object \<Rightarrow> Relation \<Rightarrow> Request
    \<Rightarrow> Context \<Rightarrow> State \<Rightarrow> Decision list \<times> State" where
  "check_sends tp service object relation re ctx st =
     (let first = (if isFinish st then [sendDecision False (Some DepthError)] else []);
          (r, st') = check_resolve tp service object relation re ctx st
      in (first @ (case r of None \<Rightarrow> [] | Some d \<Rightarrow> [d]), st'))"

subsection \<open>Accesses to the depth counter\<close>

text \<open>
  After \<open>SetDepth\<close> the cell behind \<open>Request.depth\<close> is touched by two methods only:
  \<open>isFinish\<close> reads it and \<open>decrease\<close> decrements it. All goroutines of a call hold the
  same cell, so what it holds at any moment is fixed by the accesses made so far, in the
  order in which they took effect, whichever goroutines made them: \<open>depth_after\<close>.

  \<open>check_accesses\<close> lists the accesses that the closure of \<open>check\<close> makes itself, in
  program order: the test at its start and, when the loop reaches a userset that is not
  the subject, the decrement before the nested union. The check function that the union
  starts makes its own accesses.
\<close>

datatype access = IsFinish | Decrease


fun check_scan_accesses :: "Tuple \<Rightarrow> Request \<Rightarrow> User list \<Rightarrow> access list" where
  "check_scan_accesses tp re [] = []"
| "check_scan_accesses tp re (t # users) =
     (if Equals tp t (Subject re) then []
      else if \<not> IsUser tp t then [Decrease]
      else check_scan_accesses tp re users)"


subsection \<open>Dispatcher\<close>

definition checkLeaf :: "Tuple \<Rightarrow> PermissionService \<Rightarrow> Request \<Rightarrow> LeafType \<Rightarrow> string
    \<Rightarrow> CheckFunction" where
  "checkLeaf tp service request ty v =
     (case ty of
        TupleToUserSetType \<Rightarrow> check tp service (ReqObject request) v request
      | ComputedUserSetType \<Rightarrow> check tp service (ReqObject request) v request
      | OtherLeafType \<Rightarrow> fail UndefinedChildTypeError)"

text \<open>
  \<open>set\<close> (here \<open>set_comb\<close>) builds one check function per child with the loop
  \<open>set_functions\<close>, which gives \<open>None\<close> where the source returns
  \<open>fail(UndefinedChildKindError)\<close> from inside the loop. The closure it returns sends the
  combiner's decision once the combiner has returned.
\<close>

fun checkRewrite :: "Tuple \<Rightarrow> PermissionService \<Rightarrow> Request \<Rightarrow> RewriteType \<Rightarrow> Child list
    \<Rightarrow> CheckFunction"
  and set_comb :: "Tuple \<Rightarrow> PermissionService \<Rightarrow> Request \<Rightarrow> Child list \<Rightarrow> Combiner
    \<Rightarrow> CheckFunction"
  and set_functions :: "Tuple \<Rightarrow> PermissionService \<Rightarrow> Request \<Rightarrow> Child list
    \<Rightarrow> CheckFunction list option"
where
  "checkRewrite tp service request ty children =
     (case ty of
        UnionType \<Rightarrow> set_comb tp service request children union_comb
      | IntersectionType \<Rightarrow> set_comb tp service request children intersection
      | OtherRewriteType \<Rightarrow> fail UndefinedChildTypeError)"
| "set_comb tp service request children combiner =
     (case set_functions tp service request children of
        None \<Rightarrow> fail UndefinedChildKindError
      | Some functions \<Rightarrow> (\<lambda>ctx st. combiner ctx functions st))"
| "set_functions tp service request [] = Some []"
| "set_functions tp service request (child # children) =
     (case child of
        Rewrite ty chs \<Rightarrow>
          (case set_functions tp service request children of
             None \<Rightarrow> None
           | Some functions \<Rightarrow> Some (checkRewrite tp service request ty chs # functions))
      | Leaf ty v \<Rightarrow>
          (case set_functions tp service request children of
             None \<Rightarrow> None
           | Some functions \<Rightarrow> Some (checkLeaf tp service request ty v # functions))
      | OtherKind \<Rightarrow> None)"

declare checkRewrite.simps [simp del] set_comb.simps [simp del]

text \<open>
  \<open>c\<close> returns the pair \<open>(result.Can, result.Err)\<close>, or \<open>None\<close> when the union of one
  never returns.
\<close>

definition c :: "Tuple \<Rightarrow> PermissionService \<Rightarrow> Context \<Rightarrow> Request \<Rightarrow> Child \<Rightarrow> State
    \<Rightarrow> (bool \<times> error option) option \<times> State" where
  "c tp service ctx request child st =
     (case (case child of
              Rewrite ty children \<Rightarrow> Some (checkRewrite tp service request ty children)
            | Leaf ty v \<Rightarrow> Some (checkLeaf tp service request ty v)
            | OtherKind \<Rightarrow> None) of
        None \<Rightarrow> (Some (False, Some UndefinedChildKindError), st)
      | Some fn \<Rightarrow>
          (let (result, st') = union_comb ctx [fn] st
           in (map_option (\<lambda>r. (Can r, Err r)) result, st')))"

text \<open>
  \<open>Check\<close> returns what the Go function returns, or \<open>None\<close> when it never returns, and
  the store queries made during the call. A namespace that the schema map does not hold
  gives the zero entity, which has no actions.
\<close>

definition Check :: "Tuple \<Rightarrow> PermissionService \<Rightarrow> Context \<Rightarrow> string \<Rightarrow> string \<Rightarrow> string \<Rightarrow> int
    \<Rightarrow> (bool \<times> error option) option \<times> (string \<times> string \<times> string) list" where
  "Check tp service ctx s a ob d =
     (case ConvertObject tp ob of
        Inl err \<Rightarrow> (Some (False, Some err), [])
      | Inr object \<Rightarrow>
          (let entity = (case schema service (Namespace object) of
                           None \<Rightarrow> \<lparr>Actions = []\<rparr> | Some e \<Rightarrow> e)
           in case find (\<lambda>act. Name act = a) (Actions entity) of
                None \<Rightarrow> (Some (False, Some ActionCannotFoundError), [])
              | Some act \<Rightarrow>
                  (let re = \<lparr>ReqObject = object, Subject = ConvertUser tp s\<rparr>;
                       (result, st) = c tp service ctx re (Child act) (SetDepth d)
                   in (result, queries st))))"

subsection \<open>Sample data\<close>

text \<open>
  One implementation of the \<open>pkg/tuple\<close> functions, a store and a schema, on which the
  theorems below are instantiated. Document \<open>doc:1\<close> has the owner alice; its viewers
  are, in store order, bob, the members of group \<open>g1\<close>, and alice; the group has no
  member.
\<close>

definition literal :: "string \<Rightarrow> User" where
  "literal n = \<lparr>UserID = n, UserSet = \<lparr>Object = \<lparr>Namespace = [], ID = []\<rparr>, Relation = []\<rparr>\<rparr>"

definition userset :: "string \<Rightarrow> string \<Rightarrow> string \<Rightarrow> User" where
  "userset ns i rel =
     \<lparr>UserID = [], UserSet = \<lparr>Object = \<lparr>Namespace = ns, ID = i\<rparr>, Relation = rel\<rparr>\<rparr>"

definition sample_tuple :: Tuple where
  "sample_tuple = \<lparr>
     ConvertObject = (\<lambda>s. if s = ''doc:1'' then Inr \<lparr>Namespace = ''doc'', ID = ''1''\<rparr>
                          else Inl (ExternalError ''malformed object'')),
     ConvertUser = literal,
     Split = (\<lambda>r. (r, [])),
     Equals = (\<lambda>u v. u = v),
     IsUser = (\<lambda>u. Relation (UserSet u) = []),
     ELLIPSIS = ''...''\<rparr>"

definition sample_store :: "string \<Rightarrow> string \<Rightarrow> string \<Rightarrow> error + RelationTuple list" where
  "sample_store ns i rel =
     (if (ns, i, rel) = (''doc'', ''1'', ''owner'')
        then Inr [\<lparr>UsersetEntity = [], UsersetObjectID = ''alice'', UsersetRelation = []\<rparr>]
      else if (ns, i, rel) = (''doc'', ''1'', ''viewer'')
        then Inr [\<lparr>UsersetEntity = [], UsersetObjectID = ''bob'', UsersetRelation = []\<rparr>,
                  \<lparr>UsersetEntity = ''group'', UsersetObjectID = ''g1'',
                     UsersetRelation = ''member''\<rparr>,
                  \<lparr>UsersetEntity = [], UsersetObjectID = ''alice'', UsersetRelation = []\<rparr>]
      else Inr [])"

definition sample_service :: PermissionService where
  "sample_service = \<lparr>repository = sample_store,
     schema = [''doc'' \<mapsto> \<lparr>Actions = [
        \<lparr>Name = ''view'', Child = Rewrite UnionType
           [Leaf ComputedUserSetType ''viewer'', Leaf ComputedUserSetType ''owner'']\<rparr>]\<rparr>]\<rparr>"

definition doc1 :: Object where
  "doc1 = \<lparr>Namespace = ''doc'', ID = ''1''\<rparr>"

definition group_g1 :: Object where
  "group_g1 = \<lparr>Namespace = ''group'', ID = ''g1''\<rparr>"

definition alice_on_doc1 :: Request where
  "alice_on_doc1 = \<lparr>ReqObject = doc1, Subject = literal ''alice''\<rparr>"

lemmas sample_defs = sample_tuple_def sample_store_def sample_service_def doc1_def
  group_g1_def alice_on_doc1_def literal_def userset_def

lemmas eval_defs = check.simps check_resolve.simps getUsers_def SetDepth_def isFinish_def
  decrease_def union_comb_def intersection_def arrivals_def List.map_filter_def
  sendDecision_def fail_def

section \<open>Auxiliary facts\<close>

subsection \<open>Decisions that do not end a loop\<close>

lemma union_loop_skip:
  "\<forall>e\<in>set pre. e = Recv (sendDecision False None) \<Longrightarrow> length pre \<le> n
   \<Longrightarrow> union_loop n (pre @ evs) = union_loop (n - length pre) evs"
proof (induction pre arbitrary: n)
  case Nil
  then show ?case by simp
next
  case (Cons e pre)
  then obtain m where n: "n = Suc m" by (cases n) auto
  with Cons show ?case by (simp add: sendDecision_def)
qed

lemma intersection_loop_skip:
  "\<forall>e\<in>set pre. e = Recv (sendDecision True None) \<Longrightarrow> length pre \<le> n
   \<Longrightarrow> intersection_loop n (pre @ evs) = intersection_loop (n - length pre) evs"
proof (induction pre arbitrary: n)
  case Nil
  then show ?case by simp
next
  case (Cons e pre)
  then obtain m where n: "n = Suc m" by (cases n) auto
  with Cons show ?case by (simp add: sendDecision_def)
qed

lemma iterations_left: "k < n \<Longrightarrow> \<exists>m. n - k = Suc m"
  by (cases "n - k") auto

subsection \<open>The combiners as functions of what their selects take\<close>

lemma union_comb_select:
  "fst (union_comb ctx fns st) =
     union_select (length fns) (arrivals ctx (fst (launch ctx fns st)))"
  by (simp add: union_comb_def union_select_def split_def Let_def)

lemma intersection_select_eq:
  "fst (intersection ctx fns st) =
     intersection_select (length fns) (arrivals ctx (fst (launch ctx fns st)))"
  by (simp add: intersection_def intersection_select_def split_def Let_def)

subsection \<open>No decision is allowed and erroneous\<close>

lemma union_loop_clean: "union_loop n evs = Some d \<Longrightarrow> Can d \<longrightarrow> Err d = None"
  by (induction n evs rule: union_loop.induct) (auto simp: sendDecision_def split: if_splits)

lemma intersection_loop_clean: "intersection_loop n evs = Some d \<Longrightarrow> Can d \<longrightarrow> Err d = None"
  by (induction n evs rule: intersection_loop.induct) (auto simp: sendDecision_def split: if_splits)

lemma union_comb_clean: "fst (union_comb ctx fns st) = Some d \<Longrightarrow> Can d \<longrightarrow> Err d = None"
  by (auto simp: union_comb_def sendDecision_def split_def Let_def split: if_splits dest: union_loop_clean)

lemma intersection_clean: "fst (intersection ctx fns st) = Some d \<Longrightarrow> Can d \<longrightarrow> Err d = None"
  by (auto simp: intersection_def sendDecision_def split_def Let_def split: if_splits dest: intersection_loop_clean)

lemma check_scan_clean:
  "fst (check_scan tp service re users ctx st) = Some d \<Longrightarrow> Can d \<longrightarrow> Err d = None"
  by (induction users) (auto simp: sendDecision_def split: if_splits dest: union_comb_clean)

lemma check_resolve_clean:
  "fst (check_resolve tp service object relation re ctx st) = Some d \<Longrightarrow> Can d \<longrightarrow> Err d = None"
  by (auto simp: check_resolve.simps split_def split: sum.splits dest: check_scan_clean)

lemma check_clean:
  "fst (check tp service object relation re ctx st) = Some d \<Longrightarrow> Can d \<longrightarrow> Err d = None"
  by (auto simp: check.simps sendDecision_def split: if_splits dest: check_resolve_clean)

lemma fail_clean: "fst (fail err ctx st) = Some d \<Longrightarrow> Can d \<longrightarrow> Err d = None"
  by (auto simp: fail_def sendDecision_def)

lemma checkLeaf_clean:
  "fst (checkLeaf tp service request ty v ctx st) = Some d \<Longrightarrow> Can d \<longrightarrow> Err d = None"
  by (auto simp: checkLeaf_def split: LeafType.splits dest: check_clean fail_clean)

lemma set_comb_clean:
  "combiner = union_comb \<or> combiner = intersection \<Longrightarrow>
   fst (set_comb tp service request children combiner ctx st) = Some d \<Longrightarrow> Can d \<longrightarrow> Err d = None"
  by (auto simp: set_comb.simps split: option.splits dest: union_comb_clean intersection_clean fail_clean)

lemma checkRewrite_clean:
  assumes "fst (checkRewrite tp service request ty children ctx st) = Some d"
  shows "Can d \<longrightarrow> Err d = None"
proof (cases ty)
  case UnionType
  with assms show ?thesis
    using set_comb_clean [of union_comb tp service request children ctx st d]
    by (simp add: checkRewrite.simps)
next
  case IntersectionType
  with assms show ?thesis
    using set_comb_clean [of intersection tp service request children ctx st d]
    by (simp add: checkRewrite.simps)
next
  case OtherRewriteType
  with assms show ?thesis
    using fail_clean [of UndefinedChildTypeError ctx st d]
    by (simp add: checkRewrite.simps)
qed

lemma check_sends_clean:
  assumes "d \<in> set (fst (check_sends tp service object relation re ctx st))"
  shows "Can d \<longrightarrow> Err d = None"
proof -
  from assms have "d = sendDecision False (Some DepthError)
      \<or> fst (check_resolve tp service object relation re ctx st) = Some d"
    by (auto simp: check_sends_def split_def Let_def split: option.splits if_splits)
  then show ?thesis
    using check_resolve_clean [of tp service object relation re ctx st d]
    by (auto simp: sendDecision_def)
qed

subsection \<open>Union of one function\<close>

lemma union_comb_single:
  "union_comb ctx [fn] st =
     (union_loop (Suc 0) (arrivals ctx [fst (fn ctx st)]), snd (fn ctx st))"
  by (simp add: union_comb_def split: prod.splits)

lemma arrivals_Background_single:
  "arrivals Background [r] = (case r of None \<Rightarrow> [] | Some d \<Rightarrow> [Recv d])"
  by (simp add: arrivals_def List.map_filter_def split: option.splits)

lemma union_comb_identity:
  assumes "\<And>d. fst (fn Background st) = Some d \<Longrightarrow> Can d \<longrightarrow> Err d = None"
  shows "union_comb Background [fn] st = fn Background st"
proof (cases "fst (fn Background st)")
  case None
  then show ?thesis
    by (simp add: union_comb_single arrivals_Background_single prod_eq_iff)
next
  case (Some d)
  with assms have "Can d \<longrightarrow> Err d = None" by blast
  with Some show ?thesis
    by (cases d) (auto simp add: union_comb_single arrivals_Background_single prod_eq_iff sendDecision_def)
qed

lemma union_comb_canceled:
  "fns \<noteq> [] \<Longrightarrow> fst (union_comb Canceled fns st) = Some (sendDecision False (Some CanceledError))"
  by (cases fns) (auto simp: union_comb_def arrivals_def split: prod.splits)

subsection \<open>The leaf resolver\<close>

lemma decrease_depth: "0 < depth st \<Longrightarrow> depth (decrease st) = depth st - 1"
  by (simp add: decrease_def)

lemma check_scan_skip:
  "\<forall>u\<in>set pre. \<not> Equals tp u (Subject re) \<and> IsUser tp u \<Longrightarrow>
   check_scan tp service re (pre @ users) ctx st = check_scan tp service re users ctx st"
  by (induction pre) auto

lemma check_sends_first:
  "\<not> isFinish st \<Longrightarrow>
   check_sends tp service object relation re ctx st =
     ((case fst (check tp service object relation re ctx st) of None \<Rightarrow> [] | Some d \<Rightarrow> [d]),
      snd (check tp service object relation re ctx st))"
  by (simp add: check_sends_def check.simps split: prod.splits)

lemma check_is_first_send:
  "fst (check tp service object relation re ctx st) =
     (case fst (check_sends tp service object relation re ctx st) of
        [] \<Rightarrow> None | d # ds \<Rightarrow> Some d)"
  by (simp add: check.simps check_sends_def split_def Let_def split: option.splits)

lemma c_union_of_one:
  assumes "\<And>d. fst (fn Background st) = Some d \<Longrightarrow> Can d \<longrightarrow> Err d = None"
  shows "(let (result, st') = union_comb Background [fn] st
          in (map_option (\<lambda>r. (Can r, Err r)) result, st'))
       = (map_option (\<lambda>r. (Can r, Err r)) (fst (fn Background st)), snd (fn Background st))"
proof -
  have "union_comb Background [fn] st = fn Background st"
    using assms by (intro union_comb_identity) blast
  then show ?thesis by (simp add: split_def Let_def)
qed

subsection \<open>The depth counter under any interleaving\<close>



lemma check_scan_accesses_state:
  "check_scan_accesses tp re users = [] \<Longrightarrow> snd (check_scan tp service re users ctx st) = st"
  by (induction users) (auto split: if_splits)



subsection \<open>Check on the sample data\<close>

text \<open>
  In the schedule of \<open>launch\<close>: with depth 2 the viewer leaf follows the edge to the
  group, finds no member, and the owner leaf allows alice. With depth 1 the viewer leaf uses the counter up and its
  decision is DepthError. On a canceled scope the result is CanceledError.
\<close>

lemma Check_sample_view:
  "Check sample_tuple sample_service Background ''alice'' ''view'' ''doc:1'' 2
     = (Some (True, None),
        [(''doc'', ''1'', ''viewer''), (''group'', ''g1'', ''member''),
         (''doc'', ''1'', ''owner'')])
   \<and> Check sample_tuple sample_service Background ''alice'' ''view'' ''doc:1'' 1
     = (Some (False, Some DepthError), [(''doc'', ''1'', ''viewer'')])
   \<and> Check sample_tuple sample_service Canceled ''alice'' ''view'' ''doc:1'' 2
     = (Some (False, Some CanceledError),
        [(''doc'', ''1'', ''viewer''), (''group'', ''g1'', ''member''),
         (''doc'', ''1'', ''owner'')])"
  by (simp add: Check_def c_def checkRewrite.simps set_comb.simps checkLeaf_def eval_defs
      sample_defs)

section \<open>Claims\<close>

text \<open>
  Claim C1. A leaf check function whose remaining depth is at most 0 is to report
  DepthError and stop there, before any store access and without a further decision.
  The closure has no \<open>return\<close> after that send. At depth 0, on a store that holds no
  tuple, it sends DepthError, then queries the store, then sends a second decision
  (false, nil).
\<close>

theorem depth_error_then_store_query:
  "check_sends tp \<lparr>repository = (\<lambda>ns i rel. Inr []), schema = sch\<rparr> object relation re ctx
       (SetDepth 0)
     = ([sendDecision False (Some DepthError), sendDecision False None],
        \<lparr>depth = 0, queries = [(Namespace object, ID object, fst (Split tp relation))]\<rparr>)"
  by (simp add: check_sends_def check_resolve.simps getUsers_def SetDepth_def isFinish_def)

text \<open>
  Claim C2. Every check function is to send exactly one decision. The leaf closure
  sends two at depth 0 on a store without tuples, and none at depth 1 when the store
  query fails.
\<close>

theorem check_sends_two_or_none:
  "length (fst (check_sends tp \<lparr>repository = (\<lambda>ns i rel. Inr []), schema = sch\<rparr>
       object relation re ctx (SetDepth 0))) = 2
   \<and> length (fst (check_sends tp \<lparr>repository = (\<lambda>ns i rel. Inl e), schema = sch\<rparr>
       object relation re ctx (SetDepth 1))) = 0"
  by (simp add: check_sends_def check_resolve.simps getUsers_def SetDepth_def isFinish_def)

text \<open>
  Claim C3. When the store query fails with \<open>e\<close>, the leaf check function is to report
  (false, e). The closure calls \<open>fail(err)\<close> without running the check function it
  gets back, and returns: it sends nothing, and on a scope that is never canceled the
  union of one in \<open>c\<close> never returns.
\<close>

theorem store_error_not_reported:
  "check_sends tp \<lparr>repository = (\<lambda>ns i rel. Inl e), schema = sch\<rparr> object relation re ctx
       (SetDepth 1)
     = ([], \<lparr>depth = 1, queries = [(Namespace object, ID object, fst (Split tp relation))]\<rparr>)
   \<and> fst (c tp \<lparr>repository = (\<lambda>ns i rel. Inl e), schema = sch\<rparr> Background re
         (Leaf ComputedUserSetType relation) (SetDepth 1)) = None"
  by (simp add: check_sends_def check_resolve.simps check.simps getUsers_def SetDepth_def
      isFinish_def c_def checkLeaf_def union_comb_single arrivals_Background_single)

text \<open>
  Claim C4. Union over \<open>n\<close> functions, for every sequence of what its selects take:
  with no function the result is (false, nil). When the decisions received so far, fewer
  than \<open>n\<close> and in any number, are all (false, nil), the next event decides: a decision
  (true, nil) gives (true, nil), a decision with an error \<open>e\<close> gives (false, e), and the
  closing of the caller's scope gives (false, CanceledError), whatever arrives later.
  When all \<open>n\<close> decisions are (false, nil) the result is (false, nil).
  The decision of \<open>union\<close> on a list of functions is that of \<open>union_select\<close> on what
  arrives from them.
\<close>

theorem union_short_circuit:
  "union_select 0 evs = Some (sendDecision False None)
   \<and> union_comb ctx [] st = (Some (sendDecision False None), st)
   \<and> ((\<forall>e\<in>set pre. e = Recv (sendDecision False None)) \<and> length pre < n \<longrightarrow>
        union_select n (pre @ Recv (sendDecision True None) # rest)
          = Some (sendDecision True None)
      \<and> union_select n (pre @ Recv \<lparr>Can = can, Err = Some e\<rparr> # rest)
          = Some (sendDecision False (Some e))
      \<and> union_select n (pre @ Done # rest) = Some (sendDecision False (Some CanceledError)))
   \<and> union_select n (replicate n (Recv (sendDecision False None)) @ rest)
       = Some (sendDecision False None)
   \<and> fst (union_comb ctx fns st)
       = union_select (length fns) (arrivals ctx (fst (launch ctx fns st)))"
proof (intro conjI impI)
  show "fst (union_comb ctx fns st)
      = union_select (length fns) (arrivals ctx (fst (launch ctx fns st)))"
    by (rule union_comb_select)
  show "union_select 0 evs = Some (sendDecision False None)"
    by (simp add: union_select_def)
  show "union_comb ctx [] st = (Some (sendDecision False None), st)"
    by (simp add: union_comb_def)
  show "union_select n (replicate n (Recv (sendDecision False None)) @ rest)
      = Some (sendDecision False None)"
    using union_loop_skip [of "replicate n (Recv (sendDecision False None))" n rest]
    by (simp add: union_select_def)
next
  assume h: "(\<forall>e\<in>set pre. e = Recv (sendDecision False None)) \<and> length pre < n"
  then obtain m where m: "n - length pre = Suc m"
    using iterations_left by blast
  from h have n0: "n \<noteq> 0" by auto
  from h have skip: "\<And>evs. union_loop n (pre @ evs) = union_loop (Suc m) evs"
    using union_loop_skip [of pre n] m by simp
  show "union_select n (pre @ Recv (sendDecision True None) # rest)
      = Some (sendDecision True None)"
    using n0 skip by (simp add: union_select_def sendDecision_def)
  show "union_select n (pre @ Recv \<lparr>Can = can, Err = Some e\<rparr> # rest)
      = Some (sendDecision False (Some e))"
    using n0 skip by (simp add: union_select_def sendDecision_def)
  show "union_select n (pre @ Done # rest) = Some (sendDecision False (Some CanceledError))"
    using n0 skip by (simp add: union_select_def)
qed

theorem union_short_circuit_witness:
  "list_all (\<lambda>e. e = Recv (sendDecision False None)) [Recv (sendDecision False None)]
   \<and> length [Recv (sendDecision False None)] < (2::nat)
   \<and> union_select 2 ([Recv (sendDecision False None)] @ Recv (sendDecision True None) # [])
       = Some (sendDecision True None)
   \<and> union_select 2 ([Recv (sendDecision False None)]
         @ Recv \<lparr>Can = False, Err = Some (ExternalError ''store down'')\<rparr>
         # [Recv (sendDecision True None)])
       = Some (sendDecision False (Some (ExternalError ''store down'')))
   \<and> union_select 2 ([Recv (sendDecision False None)] @ Done # [Recv (sendDecision True None)])
       = Some (sendDecision False (Some CanceledError))"
  using union_short_circuit [of "[]" Background "SetDepth 1" "[Recv (sendDecision False None)]" 2
      "[]" False "ExternalError ''store down''"]
    union_short_circuit [of "[]" Background "SetDepth 1" "[Recv (sendDecision False None)]" 2
      "[Recv (sendDecision True None)]" False "ExternalError ''store down''"]
  by simp

text \<open>
  Claim C5. Intersection over \<open>n\<close> functions, for every sequence of what its selects
  take: with no function the result is (false, nil). When the decisions received so far,
  fewer than \<open>n\<close>, are all (true, nil), the next event decides: a decision (false, nil)
  gives (false, nil), a decision with an error \<open>e\<close> gives (false, e), and the closing of
  the caller's scope gives (false, CanceledError). When all \<open>n\<close> decisions are
  (true, nil) the result is (true, nil). The decision of \<open>intersection\<close> on a list of
  functions is that of \<open>intersection_select\<close> on what arrives from them.
\<close>

theorem intersection_short_circuit:
  "intersection_select 0 evs = Some (sendDecision False None)
   \<and> intersection ctx [] st = (Some (sendDecision False None), st)
   \<and> ((\<forall>e\<in>set pre. e = Recv (sendDecision True None)) \<and> length pre < n \<longrightarrow>
        intersection_select n (pre @ Recv (sendDecision False None) # rest)
          = Some (sendDecision False None)
      \<and> intersection_select n (pre @ Recv \<lparr>Can = can, Err = Some e\<rparr> # rest)
          = Some (sendDecision False (Some e))
      \<and> intersection_select n (pre @ Done # rest)
          = Some (sendDecision False (Some CanceledError)))
   \<and> (0 < n \<longrightarrow> intersection_select n (replicate n (Recv (sendDecision True None)) @ rest)
       = Some (sendDecision True None))
   \<and> fst (intersection ctx fns st)
       = intersection_select (length fns) (arrivals ctx (fst (launch ctx fns st)))"
proof (intro conjI impI)
  show "fst (intersection ctx fns st)
      = intersection_select (length fns) (arrivals ctx (fst (launch ctx fns st)))"
    by (rule intersection_select_eq)
  show "intersection_select 0 evs = Some (sendDecision False None)"
    by (simp add: intersection_select_def)
  show "intersection ctx [] st = (Some (sendDecision False None), st)"
    by (simp add: intersection_def)
next
  assume "0 < n"
  then show "intersection_select n (replicate n (Recv (sendDecision True None)) @ rest)
      = Some (sendDecision True None)"
    using intersection_loop_skip [of "replicate n (Recv (sendDecision True None))" n rest]
    by (simp add: intersection_select_def)
next
  assume h: "(\<forall>e\<in>set pre. e = Recv (sendDecision True None)) \<and> length pre < n"
  then obtain m where m: "n - length pre = Suc m"
    using iterations_left by blast
  from h have n0: "n \<noteq> 0" by auto
  from h have skip: "\<And>evs. intersection_loop n (pre @ evs) = intersection_loop (Suc m) evs"
    using intersection_loop_skip [of pre n] m by simp
  show "intersection_select n (pre @ Recv (sendDecision False None) # rest)
      = Some (sendDecision False None)"
    using n0 skip by (simp add: intersection_select_def sendDecision_def)
  show "intersection_select n (pre @ Recv \<lparr>Can = can, Err = Some e\<rparr> # rest)
      = Some (sendDecision False (Some e))"
    using n0 skip by (simp add: intersection_select_def sendDecision_def)
  show "intersection_select n (pre @ Done # rest)
      = Some (sendDecision False (Some CanceledError))"
    using n0 skip by (simp add: intersection_select_def)
qed

theorem intersection_short_circuit_witness:
  "list_all (\<lambda>e. e = Recv (sendDecision True None)) [Recv (sendDecision True None)]
   \<and> length [Recv (sendDecision True None)] < (2::nat)
   \<and> intersection_select 2 ([Recv (sendDecision True None)] @ Recv (sendDecision False None) # [])
       = Some (sendDecision False None)
   \<and> intersection_select 2 ([Recv (sendDecision True None)]
         @ Recv \<lparr>Can = False, Err = Some (ExternalError ''store down'')\<rparr>
         # [Recv (sendDecision False None)])
       = Some (sendDecision False (Some (ExternalError ''store down'')))
   \<and> intersection_select 2 ([Recv (sendDecision True None)] @ Done # [])
       = Some (sendDecision False (Some CanceledError))
   \<and> (0::nat) < 2
   \<and> intersection_select 2 (replicate 2 (Recv (sendDecision True None)) @ [])
       = Some (sendDecision True None)"
  using intersection_short_circuit [of "[]" Background "SetDepth 1"
      "[Recv (sendDecision True None)]" 2 "[]" False "ExternalError ''store down''"]
    intersection_short_circuit [of "[]" Background "SetDepth 1"
      "[Recv (sendDecision True None)]" 2 "[Recv (sendDecision False None)]" False
      "ExternalError ''store down''"]
  by simp

text \<open>
  Claim C6, as stated: the union of one check function yields the decision of that
  function, for every check function. On a canceled scope the select takes
  \<open>ctx.Done()\<close> and the union of \<open>fail(UndefinedChildTypeError)\<close> yields
  CanceledError, which is not what the function sends.
\<close>

theorem union_of_one_counterexample:
  "union_comb Canceled [fail UndefinedChildTypeError] (SetDepth 1)
     \<noteq> fail UndefinedChildTypeError Canceled (SetDepth 1)"
  by (simp add: eval_defs)

text \<open>
  Claim C6, amended. On a scope that is not canceled, the union of one check function
  that the engine builds (a fail function, a leaf check, a rewrite) yields that
  function's first decision, and does not return when the function sends none; \<open>c\<close>
  then returns the root function's decision unchanged. The same holds for any check
  function whose decision is not allowed together with an error. On a canceled scope
  the union of one yields (false, CanceledError).
\<close>

theorem union_of_one_identity:
  "((\<forall>d. fst (fn Background st) = Some d \<longrightarrow> (Can d \<longrightarrow> Err d = None))
      \<longrightarrow> union_comb Background [fn] st = fn Background st)
   \<and> fst (union_comb Canceled [fn] st) = Some (sendDecision False (Some CanceledError))
   \<and> union_comb Background [fail err] st = fail err Background st
   \<and> union_comb Background [check tp service object relation re] st
       = check tp service object relation re Background st
   \<and> union_comb Background [checkRewrite tp service re ty children] st
       = checkRewrite tp service re ty children Background st
   \<and> c tp service Background re (Leaf lty v) st
       = (map_option (\<lambda>r. (Can r, Err r)) (fst (checkLeaf tp service re lty v Background st)),
          snd (checkLeaf tp service re lty v Background st))
   \<and> c tp service Background re (Rewrite ty children) st
       = (map_option (\<lambda>r. (Can r, Err r))
            (fst (checkRewrite tp service re ty children Background st)),
          snd (checkRewrite tp service re ty children Background st))"
proof (intro conjI impI)
  assume "\<forall>d. fst (fn Background st) = Some d \<longrightarrow> (Can d \<longrightarrow> Err d = None)"
  then show "union_comb Background [fn] st = fn Background st"
    by (intro union_comb_identity) blast
next
  show "fst (union_comb Canceled [fn] st) = Some (sendDecision False (Some CanceledError))"
    by (simp add: union_comb_canceled)
  show "union_comb Background [fail err] st = fail err Background st"
    by (intro union_comb_identity) (auto dest: fail_clean)
  show "union_comb Background [check tp service object relation re] st
       = check tp service object relation re Background st"
    by (intro union_comb_identity) (auto dest: check_clean)
  show "union_comb Background [checkRewrite tp service re ty children] st
       = checkRewrite tp service re ty children Background st"
    by (intro union_comb_identity) (auto dest: checkRewrite_clean)
  show "c tp service Background re (Leaf lty v) st
       = (map_option (\<lambda>r. (Can r, Err r)) (fst (checkLeaf tp service re lty v Background st)),
          snd (checkLeaf tp service re lty v Background st))"
    unfolding c_def using c_union_of_one [of "checkLeaf tp service re lty v" st]
    by (auto dest: checkLeaf_clean)
  show "c tp service Background re (Rewrite ty children) st
       = (map_option (\<lambda>r. (Can r, Err r))
            (fst (checkRewrite tp service re ty children Background st)),
          snd (checkRewrite tp service re ty children Background st))"
    unfolding c_def using c_union_of_one [of "checkRewrite tp service re ty children" st]
    by (auto dest: checkRewrite_clean)
qed

theorem union_of_one_identity_witness:
  "fst (fail UndefinedChildTypeError Background (SetDepth 1))
     = Some (sendDecision False (Some UndefinedChildTypeError))
   \<and> \<not> Can (sendDecision False (Some UndefinedChildTypeError))
   \<and> union_comb Background [fail UndefinedChildTypeError] (SetDepth 1)
       = fail UndefinedChildTypeError Background (SetDepth 1)"
proof -
  have v: "fst (fail UndefinedChildTypeError Background (SetDepth 1))
     = Some (sendDecision False (Some UndefinedChildTypeError))"
    "\<not> Can (sendDecision False (Some UndefinedChildTypeError))"
    by (simp_all add: fail_def sendDecision_def)
  have h: "\<forall>d. fst (fail UndefinedChildTypeError Background (SetDepth 1)) = Some d
       \<longrightarrow> (Can d \<longrightarrow> Err d = None)"
    by (simp add: fail_def sendDecision_def)
  show ?thesis
    using v h union_of_one_identity [of "fail UndefinedChildTypeError" "SetDepth 1"] by blast
qed

text \<open>
  Claim C7. When the object string parses and no action of the object's namespace has
  the given name, \<open>Check\<close> returns (false, ActionCannotFoundError) and has made no store
  query; no check function was built or run.
\<close>

theorem Check_unknown_action:
  assumes "ConvertObject tp ob = Inr object"
    and "a \<notin> Name ` set (case schema service (Namespace object) of
                             None \<Rightarrow> [] | Some e \<Rightarrow> Actions e)"
  shows "Check tp service ctx s a ob d = (Some (False, Some ActionCannotFoundError), [])"
proof -
  have "find (\<lambda>act. Name act = a)
      (Actions (case schema service (Namespace object) of
                  None \<Rightarrow> \<lparr>Actions = []\<rparr> | Some e \<Rightarrow> e)) = None"
    using assms(2) by (auto simp: find_None_iff split: option.splits)
  with assms(1) show ?thesis
    by (simp add: Check_def)
qed

theorem Check_unknown_action_witness:
  "ConvertObject sample_tuple ''doc:1'' = Inr doc1
   \<and> ''delete'' \<notin> Name ` set (case schema sample_service (Namespace doc1) of
                                    None \<Rightarrow> [] | Some e \<Rightarrow> Actions e)
   \<and> Check sample_tuple sample_service Background ''alice'' ''delete'' ''doc:1'' 5
       = (Some (False, Some ActionCannotFoundError), [])"
proof -
  have h1: "ConvertObject sample_tuple ''doc:1'' = Inr doc1"
    by (simp add: sample_defs)
  have h2: "''delete'' \<notin> Name ` set (case schema sample_service (Namespace doc1) of
                                    None \<Rightarrow> [] | Some e \<Rightarrow> Actions e)"
    by (simp add: sample_defs)
  show ?thesis
    using h1 h2 Check_unknown_action [OF h1 h2, of Background "''alice''" 5] by blast
qed




text \<open>
  Claim C9. When the users that the store returns are, in order, literal subjects other
  than the request's subject and then a userset edge other than the request's subject,
  the body of the leaf check is the union of the single leaf check on the edge's object
  and relation, run on the decremented counter. Started with a positive depth, that is
  the one decision the leaf check sends, and the counter is lower by one. The users
  after the edge have no influence.
\<close>

theorem first_userset_edge:
  assumes users: "getUsers tp service object relation st = (Inr (pre @ t # rest), st1)"
    and pre: "\<forall>u\<in>set pre. \<not> Equals tp u (Subject re) \<and> IsUser tp u"
    and t: "\<not> Equals tp t (Subject re) \<and> \<not> IsUser tp t"
  shows "check_resolve tp service object relation re ctx st =
           union_comb ctx [check tp service (Object (UserSet t)) (Relation (UserSet t)) re]
             (decrease st1)
     \<and> (\<not> isFinish st \<longrightarrow>
          depth (decrease st1) = depth st - 1
        \<and> check tp service object relation re ctx st =
            union_comb ctx [check tp service (Object (UserSet t)) (Relation (UserSet t)) re]
              (decrease st1)
        \<and> fst (check_sends tp service object relation re ctx st) =
            (case fst (union_comb ctx
                   [check tp service (Object (UserSet t)) (Relation (UserSet t)) re]
                   (decrease st1)) of None \<Rightarrow> [] | Some d \<Rightarrow> [d]))
     \<and> check_scan tp service re (pre @ t # rest') ctx st1 =
         check_scan tp service re (pre @ t # rest) ctx st1"
proof -
  have scan: "\<And>more. check_scan tp service re (pre @ t # more) ctx st1 =
      union_comb ctx [check tp service (Object (UserSet t)) (Relation (UserSet t)) re]
        (decrease st1)"
    using pre t by (simp add: check_scan_skip)
  have resolve: "check_resolve tp service object relation re ctx st =
      union_comb ctx [check tp service (Object (UserSet t)) (Relation (UserSet t)) re]
        (decrease st1)"
    using users scan by (simp add: check_resolve.simps)
  have d: "depth st1 = depth st"
    using getUsers_depth [of "Inr (pre @ t # rest)" st1 tp service object relation st] users
    by simp
  have dec: "\<not> isFinish st \<longrightarrow> depth (decrease st1) = depth st - 1"
    using d by (simp add: isFinish_def decrease_depth)
  have chk: "\<not> isFinish st \<longrightarrow> check tp service object relation re ctx st =
      union_comb ctx [check tp service (Object (UserSet t)) (Relation (UserSet t)) re]
        (decrease st1)"
    using resolve by (simp add: check.simps)
  have sends: "\<not> isFinish st \<longrightarrow> fst (check_sends tp service object relation re ctx st) =
      (case fst (union_comb ctx
           [check tp service (Object (UserSet t)) (Relation (UserSet t)) re]
           (decrease st1)) of None \<Rightarrow> [] | Some d \<Rightarrow> [d])"
    using chk by (simp add: check_sends_first)
  from resolve dec chk sends scan show ?thesis by simp
qed

theorem first_userset_edge_witness:
  "getUsers sample_tuple sample_service doc1 ''viewer'' (SetDepth 2)
     = (Inr ([literal ''bob''] @ userset ''group'' ''g1'' ''member'' # [literal ''alice'']),
        \<lparr>depth = 2, queries = [(''doc'', ''1'', ''viewer'')]\<rparr>)
   \<and> list_all (\<lambda>u. \<not> Equals sample_tuple u (Subject alice_on_doc1) \<and> IsUser sample_tuple u)
         [literal ''bob'']
   \<and> \<not> Equals sample_tuple (userset ''group'' ''g1'' ''member'') (Subject alice_on_doc1)
   \<and> \<not> IsUser sample_tuple (userset ''group'' ''g1'' ''member'')
   \<and> \<not> isFinish (SetDepth 2)
   \<and> check sample_tuple sample_service doc1 ''viewer'' alice_on_doc1 Background (SetDepth 2)
       = union_comb Background
           [check sample_tuple sample_service
              (Object (UserSet (userset ''group'' ''g1'' ''member'')))
              (Relation (UserSet (userset ''group'' ''g1'' ''member''))) alice_on_doc1]
           (decrease \<lparr>depth = 2, queries = [(''doc'', ''1'', ''viewer'')]\<rparr>)
   \<and> check sample_tuple sample_service doc1 ''viewer'' alice_on_doc1 Background (SetDepth 2)
       = (Some (sendDecision False None),
          \<lparr>depth = 1, queries = [(''doc'', ''1'', ''viewer''), (''group'', ''g1'', ''member'')]\<rparr>)"
proof -
  have v: "check sample_tuple sample_service doc1 ''viewer'' alice_on_doc1 Background (SetDepth 2)
       = (Some (sendDecision False None),
          \<lparr>depth = 1, queries = [(''doc'', ''1'', ''viewer''), (''group'', ''g1'', ''member'')]\<rparr>)"
    by (simp add: eval_defs sample_defs)
  have h1: "getUsers sample_tuple sample_service doc1 ''viewer'' (SetDepth 2)
     = (Inr ([literal ''bob''] @ userset ''group'' ''g1'' ''member'' # [literal ''alice'']),
        \<lparr>depth = 2, queries = [(''doc'', ''1'', ''viewer'')]\<rparr>)"
    by (simp add: getUsers_def SetDepth_def sample_defs)
  have h2: "\<forall>u\<in>set [literal ''bob''].
         \<not> Equals sample_tuple u (Subject alice_on_doc1) \<and> IsUser sample_tuple u"
    by (simp add: sample_defs)
  have h2': "list_all (\<lambda>u. \<not> Equals sample_tuple u (Subject alice_on_doc1)
      \<and> IsUser sample_tuple u) [literal ''bob'']"
    by (simp add: sample_defs)
  have h3: "\<not> Equals sample_tuple (userset ''group'' ''g1'' ''member'') (Subject alice_on_doc1)
      \<and> \<not> IsUser sample_tuple (userset ''group'' ''g1'' ''member'')"
    by (simp add: sample_defs)
  have h4: "\<not> isFinish (SetDepth 2)"
    by (simp add: isFinish_def SetDepth_def)
  show ?thesis
    using v h1 h2' h3 h4 first_userset_edge [OF h1 h2 h3, of Background "[]"] by blast
qed

text \<open>
  Claim C10. Every decision that the union or the intersection returns, for every
  sequence of events, and every decision that a leaf check, a check function built for
  a leaf or a rewrite node, or a fail function sends, has no error when it is allowed.
\<close>

theorem allowed_implies_no_error:
  "(union_select n evs = Some d \<longrightarrow> (Can d \<longrightarrow> Err d = None))
   \<and> (intersection_select n evs = Some d \<longrightarrow> (Can d \<longrightarrow> Err d = None))
   \<and> (fst (union_comb ctx fns st) = Some d \<longrightarrow> (Can d \<longrightarrow> Err d = None))
   \<and> (fst (intersection ctx fns st) = Some d \<longrightarrow> (Can d \<longrightarrow> Err d = None))
   \<and> (d \<in> set (fst (check_sends tp service object relation re ctx st))
        \<longrightarrow> (Can d \<longrightarrow> Err d = None))
   \<and> (fst (check tp service object relation re ctx st) = Some d \<longrightarrow> (Can d \<longrightarrow> Err d = None))
   \<and> (fst (checkLeaf tp service re lty v ctx st) = Some d \<longrightarrow> (Can d \<longrightarrow> Err d = None))
   \<and> (fst (checkRewrite tp service re ty children ctx st) = Some d
        \<longrightarrow> (Can d \<longrightarrow> Err d = None))
   \<and> (fst (fail err ctx st) = Some d \<longrightarrow> (Can d \<longrightarrow> Err d = None))"
proof (intro conjI impI)
  assume "union_select n evs = Some d" and "Can d"
  then show "Err d = None"
    using union_loop_clean [of n evs d]
    by (auto simp: union_select_def sendDecision_def split: if_splits)
next
  assume "intersection_select n evs = Some d" and "Can d"
  then show "Err d = None"
    using intersection_loop_clean [of n evs d]
    by (auto simp: intersection_select_def sendDecision_def split: if_splits)
next
  assume "fst (union_comb ctx fns st) = Some d" and "Can d"
  then show "Err d = None" using union_comb_clean by blast
next
  assume "fst (intersection ctx fns st) = Some d" and "Can d"
  then show "Err d = None" using intersection_clean by blast
next
  assume "d \<in> set (fst (check_sends tp service object relation re ctx st))" and "Can d"
  then show "Err d = None" using check_sends_clean by blast
next
  assume "fst (check tp service object relation re ctx st) = Some d" and "Can d"
  then show "Err d = None" using check_clean by blast
next
  assume "fst (checkLeaf tp service re lty v ctx st) = Some d" and "Can d"
  then show "Err d = None" using checkLeaf_clean by blast
next
  assume "fst (checkRewrite tp service re ty children ctx st) = Some d" and "Can d"
  then show "Err d = None" using checkRewrite_clean by blast
next
  assume "fst (fail err ctx st) = Some d" and "Can d"
  then show "Err d = None" using fail_clean by blast
qed

theorem allowed_implies_no_error_witness:
  "union_select 1 [Recv (sendDecision True None)] = Some (sendDecision True None)
   \<and> intersection_select 1 [Recv (sendDecision True None)] = Some (sendDecision True None)
   \<and> fst (union_comb Background [check sample_tuple sample_service doc1 ''owner'' alice_on_doc1]
         (SetDepth 1)) = Some (sendDecision True None)
   \<and> fst (intersection Background [check sample_tuple sample_service doc1 ''owner'' alice_on_doc1]
         (SetDepth 1)) = Some (sendDecision True None)
   \<and> sendDecision True None \<in> set (fst (check_sends sample_tuple sample_service doc1 ''owner''
         alice_on_doc1 Background (SetDepth 1)))
   \<and> fst (check sample_tuple sample_service doc1 ''owner'' alice_on_doc1 Background (SetDepth 1))
       = Some (sendDecision True None)
   \<and> fst (checkLeaf sample_tuple sample_service alice_on_doc1 ComputedUserSetType ''owner''
         Background (SetDepth 1)) = Some (sendDecision True None)
   \<and> fst (checkRewrite sample_tuple sample_service alice_on_doc1 UnionType
         [Leaf ComputedUserSetType ''owner''] Background (SetDepth 1))
       = Some (sendDecision True None)
   \<and> fst (fail DepthError Background (SetDepth 1)) = Some (sendDecision False (Some DepthError))
   \<and> Can (sendDecision True None)
   \<and> Err (sendDecision True None) = None
   \<and> \<not> Can (sendDecision False (Some DepthError))"
proof -
  have owner: "check sample_tuple sample_service doc1 ''owner'' alice_on_doc1 Background
      (SetDepth 1) = (Some (sendDecision True None),
        \<lparr>depth = 1, queries = [(''doc'', ''1'', ''owner'')]\<rparr>)"
    by (simp add: eval_defs sample_defs)
  have h1: "union_select 1 [Recv (sendDecision True None)] = Some (sendDecision True None)"
    by (simp add: union_select_def sendDecision_def)
  have h2: "intersection_select 1 [Recv (sendDecision True None)] = Some (sendDecision True None)"
    by (simp add: intersection_select_def sendDecision_def)
  have h3: "fst (union_comb Background
      [check sample_tuple sample_service doc1 ''owner'' alice_on_doc1] (SetDepth 1))
      = Some (sendDecision True None)"
    by (simp add: union_comb_single arrivals_Background_single owner sendDecision_def)
  have h4: "fst (intersection Background
      [check sample_tuple sample_service doc1 ''owner'' alice_on_doc1] (SetDepth 1))
      = Some (sendDecision True None)"
    by (simp add: intersection_def arrivals_Background_single owner sendDecision_def)
  have h5: "sendDecision True None \<in> set (fst (check_sends sample_tuple sample_service doc1
      ''owner'' alice_on_doc1 Background (SetDepth 1)))"
    using owner by (simp add: check_sends_first isFinish_def SetDepth_def)
  have h6: "fst (check sample_tuple sample_service doc1 ''owner'' alice_on_doc1 Background
      (SetDepth 1)) = Some (sendDecision True None)"
    by (simp add: owner)
  have h7: "fst (checkLeaf sample_tuple sample_service alice_on_doc1 ComputedUserSetType ''owner''
      Background (SetDepth 1)) = Some (sendDecision True None)"
    using owner by (simp add: checkLeaf_def alice_on_doc1_def)
  have h8: "fst (checkRewrite sample_tuple sample_service alice_on_doc1 UnionType
      [Leaf ComputedUserSetType ''owner''] Background (SetDepth 1))
      = Some (sendDecision True None)"
    using h7 by (simp add: checkRewrite.simps set_comb.simps union_comb_single
        arrivals_Background_single sendDecision_def)
  have h9: "fst (fail DepthError Background (SetDepth 1))
      = Some (sendDecision False (Some DepthError))"
    by (simp add: fail_def)
  have h10: "Can (sendDecision True None)" "\<not> Can (sendDecision False (Some DepthError))"
    by (simp_all add: sendDecision_def)
  show ?thesis
    using h1 h2 h3 h4 h5 h6 h7 h8 h9 h10
      allowed_implies_no_error [of 1 "[Recv (sendDecision True None)]" "sendDecision True None"
        Background "[check sample_tuple sample_service doc1 ''owner'' alice_on_doc1]"
        "SetDepth 1" sample_tuple sample_service doc1 "''owner''" alice_on_doc1
        ComputedUserSetType "''owner''" UnionType "[Leaf ComputedUserSetType ''owner'']"
        DepthError]
      allowed_implies_no_error [of 1 "[]" "sendDecision False (Some DepthError)"
        Background "[]" "SetDepth 1" sample_tuple sample_service doc1 "''owner''" alice_on_doc1
        ComputedUserSetType "''owner''" UnionType "[]" DepthError]
    by blast
qed

end
